theory Spec2Isabelle
  imports Main
begin

section \<open>Values and arrays of the game\<close>

text \<open>
  The squares of \<^verbatim>\<open>App.js\<close> hold \<^verbatim>\<open>null\<close>, \<^verbatim>\<open>'X'\<close> or \<^verbatim>\<open>'O'\<close>:
  \<open>Empty\<close>, \<open>MarkX\<close> and \<open>MarkO\<close>. Reading an array where it has nothing gives
  \<^verbatim>\<open>undefined\<close>, so a value that was read is a \<open>cell option\<close>, \<open>None\<close> being
  \<^verbatim>\<open>undefined\<close>.
\<close>

datatype cell = Empty | MarkX | MarkO

type_synonym jsval = "cell option"

text \<open>
  A JavaScript array is an object: the elements under its array indices
  \<open>0 .. length - 1\<close>, where a hole (\<open>None\<close>) reads as \<^verbatim>\<open>undefined\<close>, and the
  properties stored under any other key (a negative integer, or one from \<open>2^32 - 1\<close> on).
\<close>

record jsarray =
  elems :: "jsval list"
  others :: "int \<rightharpoonup> cell"

text \<open>\<^verbatim>\<open>null\<close> and \<^verbatim>\<open>undefined\<close> are falsy, the non-empty strings \<^verbatim>\<open>'X'\<close> and \<^verbatim>\<open>'O'\<close> truthy.\<close>

fun truthy :: "jsval \<Rightarrow> bool" where
  "truthy (Some MarkX) = True"
| "truthy (Some MarkO) = True"
| "truthy (Some Empty) = False"
| "truthy None = False"

definition array_index :: "int \<Rightarrow> bool" where
  "array_index i = (0 \<le> i \<and> i < 2 ^ 32 - 1)"

text \<open>\<^verbatim>\<open>squares[i]\<close>: out of range the read gives \<^verbatim>\<open>undefined\<close>, it does not fail.\<close>

definition aget :: "jsarray \<Rightarrow> int \<Rightarrow> jsval" where
  "aget a i =
     (if 0 \<le> i \<and> i < int (length (elems a)) then elems a ! nat i
      else if array_index i then None
      else others a i)"

text \<open>
  \<^verbatim>\<open>next[i] = v\<close>: a write at an array index past the end extends the array, leaving
  holes in between; a write under any other key stores a property and leaves the
  elements and the length alone.
\<close>

definition aset :: "jsarray \<Rightarrow> int \<Rightarrow> cell \<Rightarrow> jsarray" where
  "aset a i v =
     (if array_index i then
        (if nat i < length (elems a) then a\<lparr>elems := (elems a)[nat i := Some v]\<rparr>
         else a\<lparr>elems := elems a @ replicate (nat i - length (elems a)) None @ [Some v]\<rparr>)
      else a\<lparr>others := (others a)(i \<mapsto> v)\<rparr>)"

text \<open>\<^verbatim>\<open>squares.slice()\<close> copies the elements (holes included), not the other properties.\<close>

definition slice :: "jsarray \<Rightarrow> jsarray" where
  "slice a = \<lparr>elems = elems a, others = Map.empty\<rparr>"

text \<open>\<^verbatim>\<open>Array(n).fill(null)\<close>\<close>

definition fill_null :: "nat \<Rightarrow> jsarray" where
  "fill_null n = \<lparr>elems = replicate n (Some Empty), others = Map.empty\<rparr>"

text \<open>\<^verbatim>\<open>squares.every(f)\<close> calls \<open>f\<close> on the elements and skips the holes.\<close>

definition every :: "(cell \<Rightarrow> bool) \<Rightarrow> jsarray \<Rightarrow> bool" where
  "every f a = list_all (\<lambda>e. case e of None \<Rightarrow> True | Some c \<Rightarrow> f c) (elems a)"


section \<open>Win detection\<close>

definition LINES :: "(int \<times> int \<times> int) list" where
  "LINES = [(0, 1, 2), (3, 4, 5), (6, 7, 8),
            (0, 3, 6), (1, 4, 7), (2, 5, 8),
            (0, 4, 8), (2, 4, 6)]"

record result =
  winner :: jsval
  line :: "int list"

text \<open>The \<^verbatim>\<open>for (const [a, b, c] of LINES)\<close> loop of \<^verbatim>\<open>calculateWinner\<close>, on the lines left.\<close>

fun calculateWinner_loop :: "jsarray \<Rightarrow> (int \<times> int \<times> int) list \<Rightarrow> result" where
  "calculateWinner_loop sq [] = \<lparr>winner = Some Empty, line = []\<rparr>"
| "calculateWinner_loop sq ((a, b, c) # ls) =
     (if truthy (aget sq a) \<and> aget sq a = aget sq b \<and> aget sq a = aget sq c
      then \<lparr>winner = aget sq a, line = [a, b, c]\<rparr>
      else calculateWinner_loop sq ls)"

definition calculateWinner :: "jsarray \<Rightarrow> result" where
  "calculateWinner sq = calculateWinner_loop sq LINES"

text \<open>\<^verbatim>\<open>const isDraw = !winner && squares.every((s) => s !== null)\<close>\<close>

definition isDraw :: "jsarray \<Rightarrow> bool" where
  "isDraw sq = (\<not> truthy (winner (calculateWinner sq)) \<and> every (\<lambda>s. s \<noteq> Empty) sq)"

text \<open>
  The verdict the component derives from a board, in the order of its \<^verbatim>\<open>status\<close>:
  a winner first (with the line it highlights), then a draw, else the game goes on.
\<close>

datatype verdict = Ongoing | Win cell "int list" | Draw

definition evaluate :: "jsarray \<Rightarrow> verdict" where
  "evaluate sq =
     (let r = calculateWinner sq in
      case winner r of
        Some MarkX \<Rightarrow> Win MarkX (line r)
      | Some MarkO \<Rightarrow> Win MarkO (line r)
      | _ \<Rightarrow> if isDraw sq then Draw else Ongoing)"


section \<open>The game state\<close>

record game =
  squares :: jsarray
  xIsNext :: bool

definition initialState :: game where
  "initialState = \<lparr>squares = fill_null 9, xIsNext = True\<rparr>"

text \<open>
  \<^verbatim>\<open>handleSquareClick\<close>: a click on a filled square or after a win returns without
  setting any state; otherwise the copy of the board with the mark written at \<open>i\<close>
  and the negated \<^verbatim>\<open>xIsNext\<close> become the state. There is no check of \<open>i\<close>.
\<close>

definition handleSquareClick :: "game \<Rightarrow> int \<Rightarrow> game" where
  "handleSquareClick s i =
     (if truthy (aget (squares s) i) \<or> truthy (winner (calculateWinner (squares s))) then s
      else
        let next = aset (slice (squares s)) i (if xIsNext s then MarkX else MarkO)
        in \<lparr>squares = next, xIsNext = \<not> xIsNext s\<rparr>)"

definition resetGame :: "game \<Rightarrow> game" where
  "resetGame s = \<lparr>squares = fill_null 9, xIsNext = True\<rparr>"

text \<open>
  A board as the specification has it: nine cells, each \<open>Empty\<close>, \<open>MarkX\<close> or \<open>MarkO\<close>,
  and nothing else stored in the array.
\<close>

definition board9 :: "jsarray \<Rightarrow> bool" where
  "board9 a = (length (elems a) = 9 \<and> list_all (\<lambda>e. e \<noteq> None) (elems a) \<and> others a = Map.empty)"

text \<open>A board written out cell by cell, for the concrete boards below.\<close>

definition board_of :: "cell list \<Rightarrow> jsarray" where
  "board_of cs = \<lparr>elems = map Some cs, others = Map.empty\<rparr>"

text \<open>
  The specification's winning condition for a line: its three cells are equal and
  not \<open>Empty\<close>.
\<close>

definition line_complete :: "jsarray \<Rightarrow> int \<times> int \<times> int \<Rightarrow> bool" where
  "line_complete sq l =
     (case l of (a, b, c) \<Rightarrow>
        aget sq a \<noteq> Some Empty \<and> aget sq b = aget sq a \<and> aget sq c = aget sq a)"

text \<open>The test \<^verbatim>\<open>calculateWinner\<close> makes on a line, as the source writes it.\<close>

definition line_hit :: "jsarray \<Rightarrow> int \<times> int \<times> int \<Rightarrow> bool" where
  "line_hit sq l =
     (case l of (a, b, c) \<Rightarrow>
        truthy (aget sq a) \<and> aget sq a = aget sq b \<and> aget sq a = aget sq c)"

text \<open>
  The states the interface can reach: the initial one, and from a reachable state a
  click on one of the nine squares or a reset.
\<close>

inductive reachable :: "game \<Rightarrow> bool" where
  init: "reachable initialState"
| move: "reachable s \<Longrightarrow> 0 \<le> i \<Longrightarrow> i \<le> 8 \<Longrightarrow> reachable (handleSquareClick s i)"
| reset: "reachable s \<Longrightarrow> reachable (resetGame s)"

text \<open>The number of \<open>MarkX\<close> elements minus the number of \<open>MarkO\<close> elements.\<close>

definition balance :: "game \<Rightarrow> int" where
  "balance s = int (count_list (elems (squares s)) (Some MarkX))
             - int (count_list (elems (squares s)) (Some MarkO))"


section \<open>The loop of \<open>calculateWinner\<close>\<close>

text \<open>The loop returns the first line, in the order of \<open>LINES\<close>, that passes its test.\<close>

lemma loop_find:
  "calculateWinner_loop sq ls =
     (case find (line_hit sq) ls of
        None \<Rightarrow> \<lparr>winner = Some Empty, line = []\<rparr>
      | Some (a, b, c) \<Rightarrow> \<lparr>winner = aget sq a, line = [a, b, c]\<rparr>)"
proof (induction sq ls rule: calculateWinner_loop.induct)
  case (1 sq)
  show ?case by simp
next
  case (2 sq a b c ls)
  have cond: "(truthy (aget sq a) \<and> aget sq a = aget sq b \<and> aget sq a = aget sq c)
      = line_hit sq (a, b, c)"
    by (simp add: line_hit_def)
  show ?case
  proof (cases "line_hit sq (a, b, c)")
    case True
    then show ?thesis by (simp only: calculateWinner_loop.simps cond) simp
  next
    case False
    with "2.IH" show ?thesis by (simp only: calculateWinner_loop.simps cond) simp
  qed
qed

lemma LINES_range:
  "(a, b, c) \<in> set LINES \<Longrightarrow> 0 \<le> a \<and> a \<le> 8 \<and> 0 \<le> b \<and> b \<le> 8 \<and> 0 \<le> c \<and> c \<le> 8"
  by (auto simp: LINES_def)

lemma board9_aget:
  assumes "board9 sq" and "0 \<le> i" and "i \<le> 8"
  shows "aget sq i = Some Empty \<or> truthy (aget sq i)"
proof -
  from assms have "nat i < length (elems sq)" by (simp add: board9_def)
  moreover from assms have "\<forall>n < length (elems sq). elems sq ! n \<noteq> None"
    by (simp add: board9_def list_all_length)
  ultimately have "elems sq ! nat i \<noteq> None" by blast
  moreover from assms have "aget sq i = elems sq ! nat i" by (simp add: aget_def board9_def)
  ultimately obtain c where "aget sq i = Some c" by auto
  then show ?thesis by (cases c) simp_all
qed

lemma truthy_not_Empty: "truthy v \<Longrightarrow> v \<noteq> Some Empty"
  by (cases v rule: truthy.cases) simp_all

text \<open>On a nine-cell board the test of the source is the specification's condition.\<close>

lemma line_hit_iff:
  assumes "board9 sq" and "l \<in> set LINES"
  shows "line_hit sq l = line_complete sq l"
proof -
  obtain a b c where l: "l = (a, b, c)" by (cases l)
  with assms(2) have "0 \<le> a" "a \<le> 8" using LINES_range by blast+
  with assms(1) have "aget sq a = Some Empty \<or> truthy (aget sq a)" by (rule board9_aget)
  then show ?thesis
    unfolding l line_hit_def line_complete_def using truthy_not_Empty by auto
qed

lemma find_line_hit:
  assumes "board9 sq"
  shows "find (line_hit sq) LINES = find (line_complete sq) LINES"
  using assms by (intro find_cong) (simp_all add: line_hit_iff)

lemma no_line_no_winner:
  assumes "board9 sq" and "\<forall>l \<in> set LINES. \<not> line_complete sq l"
  shows "calculateWinner sq = \<lparr>winner = Some Empty, line = []\<rparr>"
proof -
  from assms have "find (line_hit sq) LINES = None"
    by (simp add: find_None_iff line_hit_iff)
  then show ?thesis by (simp add: calculateWinner_def loop_find)
qed

lemma evaluate_Ongoing_iff:
  "evaluate sq = Ongoing \<longleftrightarrow> \<not> truthy (winner (calculateWinner sq)) \<and> \<not> isDraw sq"
proof (cases "winner (calculateWinner sq)")
  case None
  then show ?thesis by (simp add: evaluate_def)
next
  case (Some c)
  then show ?thesis by (cases c) (simp_all add: evaluate_def)
qed


section \<open>One click\<close>

lemma slice_board9: "board9 a \<Longrightarrow> slice a = a"
  by (simp add: slice_def board9_def)

lemma array_index_board: "0 \<le> i \<Longrightarrow> i \<le> 8 \<Longrightarrow> array_index i"
  by (simp add: array_index_def)

lemma handleSquareClick_ignored:
  "truthy (aget (squares s) i) \<or> truthy (winner (calculateWinner (squares s)))
   \<Longrightarrow> handleSquareClick s i = s"
  by (simp add: handleSquareClick_def)

lemma handleSquareClick_placed:
  assumes "board9 (squares s)" and "0 \<le> i" and "i \<le> 8"
    and "\<not> truthy (aget (squares s) i)"
    and "\<not> truthy (winner (calculateWinner (squares s)))"
  shows "handleSquareClick s i =
     \<lparr>squares = (squares s)\<lparr>elems :=
          (elems (squares s))[nat i := Some (if xIsNext s then MarkX else MarkO)]\<rparr>,
      xIsNext = \<not> xIsNext s\<rparr>"
proof -
  from assms(1,2,3) have "nat i < length (elems (squares s))" by (simp add: board9_def)
  with assms show ?thesis
    by (simp add: handleSquareClick_def slice_board9 aset_def array_index_board)
qed

lemma board9_update:
  "board9 a \<Longrightarrow> board9 (a\<lparr>elems := (elems a)[n := Some v]\<rparr>)"
  by (auto simp: board9_def list_all_iff dest: set_update_subset_insert [THEN subsetD])

lemma aget_update:
  assumes "board9 a" and "0 \<le> i" and "i \<le> 8"
  shows "aget (a\<lparr>elems := (elems a)[nat i := Some v]\<rparr>) j = (if j = i then Some v else aget a j)"
proof -
  from assms have "nat i < length (elems a)" by (simp add: board9_def)
  with assms(2) show ?thesis by (auto simp: aget_def nth_list_update nat_eq_iff)
qed

lemma handleSquareClick_board9:
  assumes "board9 (squares s)" and "0 \<le> i" and "i \<le> 8"
  shows "board9 (squares (handleSquareClick s i))"
proof (cases "truthy (aget (squares s) i) \<or> truthy (winner (calculateWinner (squares s)))")
  case True
  with assms(1) show ?thesis by (simp add: handleSquareClick_ignored)
next
  case False
  with assms show ?thesis by (simp add: handleSquareClick_placed board9_update)
qed

lemma terminal_ignored:
  assumes "board9 (squares s)" and "evaluate (squares s) \<noteq> Ongoing" and "0 \<le> i" and "i \<le> 8"
  shows "handleSquareClick s i = s"
proof (cases "truthy (winner (calculateWinner (squares s)))")
  case True
  then show ?thesis by (simp add: handleSquareClick_ignored)
next
  case False
  with assms(2) have "isDraw (squares s)" by (simp add: evaluate_Ongoing_iff)
  then have full: "Some Empty \<notin> set (elems (squares s))"
    by (auto simp: isDraw_def every_def list_all_iff)
  from assms have n: "nat i < length (elems (squares s))" by (simp add: board9_def)
  from assms have "aget (squares s) i = elems (squares s) ! nat i"
    by (simp add: aget_def board9_def)
  with n full have "aget (squares s) i \<noteq> Some Empty" by (metis nth_mem)
  with board9_aget [OF assms(1,3,4)] have "truthy (aget (squares s) i)" by simp
  then show ?thesis by (simp add: handleSquareClick_ignored)
qed

lemma initialState_board9: "board9 (squares initialState)"
  by (simp add: initialState_def fill_null_def board9_def list_all_iff)

lemma initialState_no_winner: "\<not> truthy (winner (calculateWinner (squares initialState)))"
  by (simp add: initialState_def fill_null_def calculateWinner_def LINES_def aget_def
      numeral_eq_Suc)

lemma reset_Ongoing: "evaluate (squares (resetGame s)) = Ongoing"
  by (simp add: resetGame_def fill_null_def evaluate_def
      calculateWinner_def LINES_def aget_def isDraw_def every_def numeral_eq_Suc)


section \<open>Clicks outside the board\<close>

lemma aget_outside:
  assumes "board9 a" and "i < 0 \<or> 8 < i"
  shows "aget a i = None"
  using assms by (auto simp: aget_def board9_def)

lemma aget_aset_outside:
  assumes "board9 a" and "i < 0 \<or> 8 < i"
  shows "aget (aset a i v) j = (if j = i then Some v else aget a j)"
proof (cases "array_index i")
  case True
  with assms(2) have i: "8 < i" by (simp add: array_index_def)
  with assms(1) have len: "\<not> nat i < length (elems a)" "nat i - length (elems a) = nat i - 9"
    by (simp_all add: board9_def)
  from i have big: "\<not> nat i < 9" by simp
  have new: "aset a i v = a\<lparr>elems := elems a @ replicate (nat i - 9) None @ [Some v]\<rparr>"
    using True len by (simp add: aset_def)
  show ?thesis
  proof (cases "j = i")
    case True
    with i big assms(1) show ?thesis
      by (simp add: new aget_def board9_def nth_append)
  next
    case False
    show ?thesis
    proof (cases "0 \<le> j \<and> j < 9")
      case True
      then have "nat j < 9" by linarith
      with True assms(1) show ?thesis using \<open>j \<noteq> i\<close>
        by (simp add: new aget_def board9_def nth_append)
    next
      case False
      with assms(1) i \<open>j \<noteq> i\<close> show ?thesis
        by (auto simp: new aget_def board9_def nth_append nth_Cons' array_index_def)
    qed
  qed
next
  case False
  with assms show ?thesis
    by (auto simp: aset_def aget_def board9_def)
qed


section \<open>The balance of marks\<close>

lemma count_list_update:
  "n < length xs \<Longrightarrow>
   int (count_list (xs[n := v]) c) =
     int (count_list xs c) - (if xs ! n = c then 1 else 0) + (if v = c then 1 else 0)"
proof (induction xs arbitrary: n)
  case Nil
  then show ?case by simp
next
  case (Cons x xs)
  show ?case
  proof (cases n)
    case 0
    then show ?thesis by simp
  next
    case (Suc m)
    with Cons.prems have "m < length xs" by simp
    from Cons.IH [OF this] show ?thesis using Suc by (auto split: if_splits)
  qed
qed

lemma count_list_replicate_other: "x \<noteq> c \<Longrightarrow> count_list (replicate n x) c = 0"
  by (induction n) simp_all

lemma balance_initialState: "balance initialState = 0"
  by (simp add: balance_def initialState_def fill_null_def count_list_replicate_other)

lemma balance_handleSquareClick:
  assumes "board9 (squares s)" and "0 \<le> i" and "i \<le> 8"
    and "balance s = (if xIsNext s then 0 else 1)"
  shows "balance (handleSquareClick s i) = (if xIsNext (handleSquareClick s i) then 0 else 1)"
proof (cases "truthy (aget (squares s) i) \<or> truthy (winner (calculateWinner (squares s)))")
  case True
  with assms(4) show ?thesis by (simp add: handleSquareClick_ignored)
next
  case False
  then have ne: "\<not> truthy (aget (squares s) i)"
    and nw: "\<not> truthy (winner (calculateWinner (squares s)))" by simp_all
  from assms(1,2,3) have n: "nat i < length (elems (squares s))" by (simp add: board9_def)
  from board9_aget [OF assms(1,2,3)] ne have "aget (squares s) i = Some Empty" by simp
  moreover from n have "i < int (length (elems (squares s)))" by linarith
  ultimately have old: "elems (squares s) ! nat i = Some Empty"
    using assms(2) by (simp add: aget_def)
  show ?thesis
    using assms(4) n old
    by (auto simp: handleSquareClick_placed [OF assms(1,2,3) ne nw] balance_def
        count_list_update split: if_splits)
qed

lemma reachable_invariant:
  "reachable s \<Longrightarrow> board9 (squares s) \<and> balance s = (if xIsNext s then 0 else 1)"
proof (induction rule: reachable.induct)
  case init
  show ?case by (simp add: initialState_board9 balance_initialState) (simp add: initialState_def)
next
  case (move s i)
  then show ?case by (simp add: handleSquareClick_board9 balance_handleSquareClick)
next
  case (reset s)
  have "resetGame s = initialState" by (simp add: resetGame_def initialState_def)
  then show ?case
    by (simp add: initialState_board9 balance_initialState) (simp add: initialState_def)
qed


section \<open>Concrete games\<close>

text \<open>The game \<open>X0 O4 X1 O3\<close> from the initial state, and the move \<open>X2\<close> that wins it.\<close>

lemma game_0413:
  "foldl handleSquareClick initialState [0, 4, 1, 3] =
     \<lparr>squares = board_of [MarkX, MarkX, Empty, MarkO, MarkO, Empty, Empty, Empty, Empty],
      xIsNext = True\<rparr>"
  by (simp add: handleSquareClick_def initialState_def fill_null_def board_of_def
      calculateWinner_def LINES_def aget_def aset_def slice_def array_index_def numeral_eq_Suc)

lemma game_04132:
  "foldl handleSquareClick initialState [0, 4, 1, 3, 2] =
     \<lparr>squares = board_of [MarkX, MarkX, MarkX, MarkO, MarkO, Empty, Empty, Empty, Empty],
      xIsNext = False\<rparr>"
  by (simp add: handleSquareClick_def initialState_def fill_null_def board_of_def
      calculateWinner_def LINES_def aget_def aset_def slice_def array_index_def numeral_eq_Suc)


section \<open>Win detection on nine-cell boards\<close>

text \<open>
  C1. For every nine-cell board in which some line of \<open>LINES\<close> has three equal cells
  that are not \<open>Empty\<close>, \<open>calculateWinner\<close> returns that mark with that line, and the
  verdict is \<open>Win\<close> with the same mark and line. When several lines qualify, the line
  returned is the first of them in the order of \<open>LINES\<close>: no line before it qualifies.
\<close>

theorem calculateWinner_first_line:
  assumes "board9 sq" and "l \<in> set LINES" and "line_complete sq l"
  shows "\<exists>k a b c m.
           k < length LINES \<and> LINES ! k = (a, b, c) \<and> line_complete sq (a, b, c)
           \<and> (\<forall>j<k. \<not> line_complete sq (LINES ! j))
           \<and> aget sq a = Some m \<and> m \<noteq> Empty
           \<and> calculateWinner sq = \<lparr>winner = Some m, line = [a, b, c]\<rparr>
           \<and> evaluate sq = Win m [a, b, c]"
proof -
  from assms(2,3) have "find (line_complete sq) LINES \<noteq> None"
    unfolding find_None_iff by blast
  then obtain x where x: "find (line_complete sq) LINES = Some x" by auto
  obtain a b c where abc: "x = (a, b, c)" by (cases x)
  from x obtain k where k: "k < length LINES" "line_complete sq (LINES ! k)" "x = LINES ! k"
      "\<forall>j<k. \<not> line_complete sq (LINES ! j)"
    unfolding find_Some_iff by blast
  from k(1,3) have mem: "(a, b, c) \<in> set LINES" unfolding abc[symmetric] by simp
  from k(2,3) have full: "line_complete sq (a, b, c)" by (simp add: abc)
  with assms(1) mem have hit: "line_hit sq (a, b, c)" by (simp add: line_hit_iff)
  then have t: "truthy (aget sq a)" by (auto simp: line_hit_def)
  then obtain m where m: "aget sq a = Some m" "m \<noteq> Empty"
    by (cases "aget sq a" rule: truthy.cases) simp_all
  have cw: "calculateWinner sq = \<lparr>winner = Some m, line = [a, b, c]\<rparr>"
    using x abc m(1) by (simp add: calculateWinner_def loop_find find_line_hit[OF assms(1)])
  have ev: "evaluate sq = Win m [a, b, c]"
    using m(2) by (cases m) (simp_all add: evaluate_def cw)
  from k(1) k(3) abc full k(4) m cw ev show ?thesis by auto
qed

text \<open>
  A board with two complete lines, \<open>(0, 1, 2)\<close> of \<open>MarkX\<close> and \<open>(3, 4, 5)\<close> of \<open>MarkO\<close>:
  the verdict carries the first.
\<close>

theorem calculateWinner_first_line_witness:
  "board9 (board_of [MarkX, MarkX, MarkX, MarkO, MarkO, MarkO, Empty, Empty, Empty])
   \<and> (3, 4, 5) \<in> set LINES
   \<and> line_complete (board_of [MarkX, MarkX, MarkX, MarkO, MarkO, MarkO, Empty, Empty, Empty])
       (3, 4, 5)
   \<and> evaluate (board_of [MarkX, MarkX, MarkX, MarkO, MarkO, MarkO, Empty, Empty, Empty])
       = Win MarkX [0, 1, 2]"
proof -
  let ?b = "board_of [MarkX, MarkX, MarkX, MarkO, MarkO, MarkO, Empty, Empty, Empty]"
  have h1: "board9 ?b" by (simp add: board9_def board_of_def)
  have h2: "(3, 4, 5) \<in> set LINES" by (simp add: LINES_def)
  have h3: "line_complete ?b (3, 4, 5)" by (simp add: line_complete_def board_of_def aget_def)
  from calculateWinner_first_line [OF h1 h2 h3]
  obtain k a b c m where r: "k < length LINES" "LINES ! k = (a, b, c)"
      "\<forall>j<k. \<not> line_complete ?b (LINES ! j)" "aget ?b a = Some m"
      "evaluate ?b = Win m [a, b, c]" by blast
  have h0: "line_complete ?b (LINES ! 0)"
    by (simp add: line_complete_def board_of_def aget_def LINES_def)
  with r(3) have "k = 0" by (cases k) auto
  with r(2) have "a = 0 \<and> b = 1 \<and> c = 2" by (simp add: LINES_def)
  with r(4,5) have "evaluate ?b = Win MarkX [0, 1, 2]" by (simp add: board_of_def aget_def)
  with h1 h2 h3 show ?thesis by simp
qed

text \<open>
  C5. For every nine-cell board whose cells are all other than \<open>Empty\<close> and in which no
  line has three equal cells that are not \<open>Empty\<close>, the verdict is \<open>Draw\<close>.
\<close>

theorem evaluate_draw:
  assumes "board9 sq" and "Some Empty \<notin> set (elems sq)"
    and "\<forall>l \<in> set LINES. \<not> line_complete sq l"
  shows "evaluate sq = Draw \<and> isDraw sq"
proof -
  note cw = no_line_no_winner [OF assms(1,3)]
  have "every (\<lambda>s. s \<noteq> Empty) sq"
    using assms(2) by (auto simp: every_def list_all_iff split: option.splits)
  then have "isDraw sq" by (simp add: isDraw_def cw)
  then show ?thesis by (simp add: evaluate_def cw)
qed

text \<open>The full board of the game \<open>X0 O1 X2 O3 X5 O4 X6 O8 X7\<close>.\<close>

theorem evaluate_draw_witness:
  "board9 (board_of [MarkX, MarkO, MarkX, MarkO, MarkO, MarkX, MarkX, MarkX, MarkO])
   \<and> Some Empty \<notin> set (elems
       (board_of [MarkX, MarkO, MarkX, MarkO, MarkO, MarkX, MarkX, MarkX, MarkO]))
   \<and> evaluate (board_of [MarkX, MarkO, MarkX, MarkO, MarkO, MarkX, MarkX, MarkX, MarkO]) = Draw"
proof -
  let ?b = "board_of [MarkX, MarkO, MarkX, MarkO, MarkO, MarkX, MarkX, MarkX, MarkO]"
  have h1: "board9 ?b" by (simp add: board9_def board_of_def)
  have h2: "Some Empty \<notin> set (elems ?b)" by (simp add: board_of_def)
  have h3: "\<forall>l \<in> set LINES. \<not> line_complete ?b l"
    by (simp add: LINES_def line_complete_def board_of_def aget_def)
  from evaluate_draw [OF h1 h2 h3] h1 h2 show ?thesis by simp
qed

text \<open>
  C6. For every nine-cell board in which no line has three equal cells that are not
  \<open>Empty\<close>, and which has at least one \<open>Empty\<close> cell, the verdict is \<open>Ongoing\<close>: there
  is no winner and no draw.
\<close>

theorem evaluate_ongoing:
  assumes "board9 sq" and "Some Empty \<in> set (elems sq)"
    and "\<forall>l \<in> set LINES. \<not> line_complete sq l"
  shows "evaluate sq = Ongoing \<and> winner (calculateWinner sq) = Some Empty \<and> \<not> isDraw sq"
proof -
  note cw = no_line_no_winner [OF assms(1,3)]
  have "\<not> every (\<lambda>s. s \<noteq> Empty) sq"
    using assms(2) by (auto simp: every_def list_all_iff split: option.splits)
  then have "\<not> isDraw sq" by (simp add: isDraw_def)
  then show ?thesis by (simp add: evaluate_def cw)
qed

theorem evaluate_ongoing_witness:
  "board9 (board_of [MarkX, MarkX, Empty, MarkO, MarkO, Empty, Empty, Empty, Empty])
   \<and> Some Empty \<in> set (elems
       (board_of [MarkX, MarkX, Empty, MarkO, MarkO, Empty, Empty, Empty, Empty]))
   \<and> evaluate (board_of [MarkX, MarkX, Empty, MarkO, MarkO, Empty, Empty, Empty, Empty])
       = Ongoing"
proof -
  let ?b = "board_of [MarkX, MarkX, Empty, MarkO, MarkO, Empty, Empty, Empty, Empty]"
  have h1: "board9 ?b" by (simp add: board9_def board_of_def)
  have h2: "Some Empty \<in> set (elems ?b)" by (simp add: board_of_def)
  have h3: "\<forall>l \<in> set LINES. \<not> line_complete ?b l"
    by (simp add: LINES_def line_complete_def board_of_def aget_def)
  from evaluate_ongoing [OF h1 h2 h3] h1 h2 show ?thesis by simp
qed


section \<open>Moves\<close>

text \<open>
  C2, as the code has it. For every accepted move (index in \<open>[0, 8]\<close>, the cell \<open>Empty\<close>,
  verdict \<open>Ongoing\<close> before the move) \<open>handleSquareClick\<close> writes the mark of the turn
  and flips \<open>xIsNext\<close>, whatever the verdict of the updated board: the flip is not
  conditional on that verdict.
\<close>

theorem handleSquareClick_flips_turn:
  assumes "board9 (squares s)" and "0 \<le> i" and "i \<le> 8"
    and "aget (squares s) i = Some Empty" and "evaluate (squares s) = Ongoing"
  shows "xIsNext (handleSquareClick s i) = (\<not> xIsNext s)
     \<and> aget (squares (handleSquareClick s i)) i = Some (if xIsNext s then MarkX else MarkO)"
proof -
  from assms(5) have nw: "\<not> truthy (winner (calculateWinner (squares s)))"
    by (simp add: evaluate_Ongoing_iff)
  from assms(4) have ne: "\<not> truthy (aget (squares s) i)" by simp
  show ?thesis
    using assms(1,2,3) by (simp add: handleSquareClick_placed [OF assms(1,2,3) ne nw] aget_update)
qed

text \<open>The first move of a game: \<open>MarkX\<close> at the centre, and \<open>MarkO\<close> is next.\<close>

theorem handleSquareClick_flips_turn_witness:
  "board9 (squares initialState) \<and> (0::int) \<le> 4 \<and> (4::int) \<le> 8
   \<and> aget (squares initialState) 4 = Some Empty
   \<and> evaluate (squares initialState) = Ongoing
   \<and> xIsNext (handleSquareClick initialState 4) = False
   \<and> aget (squares (handleSquareClick initialState 4)) 4 = Some MarkX"
proof -
  have h1: "board9 (squares initialState)" by (rule initialState_board9)
  have h2: "(0::int) \<le> 4" and h3: "(4::int) \<le> 8" by simp_all
  have h4: "aget (squares initialState) 4 = Some Empty"
    by (simp add: initialState_def fill_null_def aget_def numeral_eq_Suc)
  have h5: "evaluate (squares initialState) = Ongoing"
    using reset_Ongoing [of initialState] by (simp add: resetGame_def initialState_def)
  have x: "xIsNext initialState" by (simp add: initialState_def)
  from handleSquareClick_flips_turn [OF h1 h2 h3 h4 h5] h1 h4 h5 x show ?thesis by simp
qed

text \<open>
  The claim as stated fails on the winning move: in the game \<open>X0 O4 X1 O3\<close> the verdict is
  \<open>Ongoing\<close>, cell 2 is \<open>Empty\<close> and \<open>MarkX\<close> is to move; the move at 2 gives the verdict
  \<open>Win MarkX [0, 1, 2]\<close>, and \<open>xIsNext\<close> has flipped all the same.
\<close>

theorem turn_kept_on_win_counterexample:
  "evaluate (squares (foldl handleSquareClick initialState [0, 4, 1, 3])) = Ongoing
   \<and> aget (squares (foldl handleSquareClick initialState [0, 4, 1, 3])) 2 = Some Empty
   \<and> xIsNext (foldl handleSquareClick initialState [0, 4, 1, 3]) = True
   \<and> foldl handleSquareClick initialState [0, 4, 1, 3, 2] =
       handleSquareClick (foldl handleSquareClick initialState [0, 4, 1, 3]) 2
   \<and> evaluate (squares (foldl handleSquareClick initialState [0, 4, 1, 3, 2]))
       = Win MarkX [0, 1, 2]
   \<and> xIsNext (foldl handleSquareClick initialState [0, 4, 1, 3, 2]) = False"
proof -
  have a: "evaluate (squares (foldl handleSquareClick initialState [0, 4, 1, 3])) = Ongoing"
    by (simp only: game_0413)
      (simp add: evaluate_def calculateWinner_def LINES_def aget_def board_of_def
        isDraw_def every_def)
  have b: "aget (squares (foldl handleSquareClick initialState [0, 4, 1, 3])) 2 = Some Empty"
    by (simp only: game_0413) (simp add: aget_def board_of_def)
  have c: "xIsNext (foldl handleSquareClick initialState [0, 4, 1, 3]) = True"
    by (simp only: game_0413) simp
  have d: "foldl handleSquareClick initialState [0, 4, 1, 3, 2] =
       handleSquareClick (foldl handleSquareClick initialState [0, 4, 1, 3]) 2"
    by simp
  have e: "evaluate (squares (foldl handleSquareClick initialState [0, 4, 1, 3, 2]))
       = Win MarkX [0, 1, 2]"
    by (simp only: game_04132)
      (simp add: evaluate_def calculateWinner_def LINES_def aget_def board_of_def)
  have f: "xIsNext (foldl handleSquareClick initialState [0, 4, 1, 3, 2]) = False"
    by (simp only: game_04132) simp
  from a b c d e f show ?thesis by (intro conjI)
qed

text \<open>
  C9. For every accepted move with index \<open>i\<close> in \<open>[0, 8]\<close> (cell \<open>i\<close> \<open>Empty\<close>, verdict
  \<open>Ongoing\<close>) the new board differs from the old one at index \<open>i\<close> only, where it has
  the mark of the turn: every other index reads as before, and the board is still a
  nine-cell board.
\<close>

theorem handleSquareClick_frame:
  assumes "board9 (squares s)" and "0 \<le> i" and "i \<le> 8"
    and "aget (squares s) i = Some Empty" and "evaluate (squares s) = Ongoing"
  shows "length (elems (squares (handleSquareClick s i))) = 9
     \<and> board9 (squares (handleSquareClick s i))
     \<and> (\<forall>j. j \<noteq> i \<longrightarrow> aget (squares (handleSquareClick s i)) j = aget (squares s) j)
     \<and> aget (squares (handleSquareClick s i)) i = Some (if xIsNext s then MarkX else MarkO)"
proof -
  from assms(5) have nw: "\<not> truthy (winner (calculateWinner (squares s)))"
    by (simp add: evaluate_Ongoing_iff)
  from assms(4) have ne: "\<not> truthy (aget (squares s) i)" by simp
  note eq = handleSquareClick_placed [OF assms(1,2,3) ne nw]
  have b: "board9 (squares (handleSquareClick s i))"
    using assms(1,2,3) by (rule handleSquareClick_board9)
  then have "length (elems (squares (handleSquareClick s i))) = 9" by (simp add: board9_def)
  with b show ?thesis using assms(1,2,3) by (simp add: eq aget_update)
qed

text \<open>The move \<open>O3\<close> after \<open>X0 O4 X1\<close>: cell 0 keeps its \<open>MarkX\<close>, cell 3 gets the \<open>MarkO\<close>.\<close>

theorem handleSquareClick_frame_witness:
  "board9 (board_of [MarkX, MarkX, Empty, Empty, MarkO, Empty, Empty, Empty, Empty])
   \<and> (0::int) \<le> 3 \<and> (3::int) \<le> 8
   \<and> aget (board_of [MarkX, MarkX, Empty, Empty, MarkO, Empty, Empty, Empty, Empty]) 3
       = Some Empty
   \<and> evaluate (board_of [MarkX, MarkX, Empty, Empty, MarkO, Empty, Empty, Empty, Empty])
       = Ongoing
   \<and> length (elems (squares (handleSquareClick
       \<lparr>squares = board_of [MarkX, MarkX, Empty, Empty, MarkO, Empty, Empty, Empty, Empty],
        xIsNext = False\<rparr> 3))) = 9
   \<and> aget (squares (handleSquareClick
       \<lparr>squares = board_of [MarkX, MarkX, Empty, Empty, MarkO, Empty, Empty, Empty, Empty],
        xIsNext = False\<rparr> 3)) 0 = Some MarkX
   \<and> aget (squares (handleSquareClick
       \<lparr>squares = board_of [MarkX, MarkX, Empty, Empty, MarkO, Empty, Empty, Empty, Empty],
        xIsNext = False\<rparr> 3)) 3 = Some MarkO"
proof -
  let ?b = "board_of [MarkX, MarkX, Empty, Empty, MarkO, Empty, Empty, Empty, Empty]"
  let ?s = "\<lparr>squares = ?b, xIsNext = False\<rparr>"
  have h1: "board9 (squares ?s)" by (simp add: board9_def board_of_def)
  have h2: "(0::int) \<le> 3" and h3: "(3::int) \<le> 8" by simp_all
  have h4: "aget (squares ?s) 3 = Some Empty" by (simp add: aget_def board_of_def)
  have h5: "evaluate (squares ?s) = Ongoing"
    by (simp add: evaluate_def calculateWinner_def LINES_def aget_def board_of_def
        isDraw_def every_def)
  have old: "aget ?b 0 = Some MarkX" by (simp add: aget_def board_of_def)
  from handleSquareClick_frame [OF h1 h2 h3 h4 h5] h1 h4 h5 old show ?thesis by simp
qed


section \<open>Ignored clicks\<close>

text \<open>
  C4. In every state whose verdict is \<open>Win\<close> or \<open>Draw\<close>, any sequence of clicks with indices
  in \<open>[0, 8]\<close> leaves the state, and so the board and its verdict, unchanged; a reset
  leads back to a state whose verdict is \<open>Ongoing\<close>.
\<close>

theorem terminal_lock:
  assumes "board9 (squares s)" and "evaluate (squares s) \<noteq> Ongoing"
    and "\<forall>i \<in> set js. 0 \<le> i \<and> i \<le> 8"
  shows "foldl handleSquareClick s js = s
     \<and> squares (foldl handleSquareClick s js) = squares s
     \<and> evaluate (squares (foldl handleSquareClick s js)) \<noteq> Ongoing
     \<and> evaluate (squares (resetGame s)) = Ongoing"
proof -
  from assms(3) have "foldl handleSquareClick s js = s"
  proof (induction js)
    case Nil
    show ?case by simp
  next
    case (Cons j js)
    then have "handleSquareClick s j = s" using assms(1,2) by (simp add: terminal_ignored)
    with Cons show ?case by simp
  qed
  then show ?thesis using assms(2) by (simp add: reset_Ongoing)
qed

text \<open>After the win \<open>X0 O4 X1 O3 X2\<close>, clicks on the empty cells 5 and 8 and on cell 0.\<close>

theorem terminal_lock_witness:
  "board9 (board_of [MarkX, MarkX, MarkX, MarkO, MarkO, Empty, Empty, Empty, Empty])
   \<and> evaluate (board_of [MarkX, MarkX, MarkX, MarkO, MarkO, Empty, Empty, Empty, Empty])
       \<noteq> Ongoing
   \<and> foldl handleSquareClick
       \<lparr>squares = board_of [MarkX, MarkX, MarkX, MarkO, MarkO, Empty, Empty, Empty, Empty],
        xIsNext = False\<rparr> [5, 0, 8]
     = \<lparr>squares = board_of [MarkX, MarkX, MarkX, MarkO, MarkO, Empty, Empty, Empty, Empty],
        xIsNext = False\<rparr>"
proof -
  let ?b = "board_of [MarkX, MarkX, MarkX, MarkO, MarkO, Empty, Empty, Empty, Empty]"
  let ?s = "\<lparr>squares = ?b, xIsNext = False\<rparr>"
  have h1: "board9 (squares ?s)" by (simp add: board9_def board_of_def)
  have h2: "evaluate (squares ?s) \<noteq> Ongoing"
    by (simp add: evaluate_def calculateWinner_def LINES_def aget_def board_of_def)
  have h3: "\<forall>i \<in> set [5, 0, 8 :: int]. 0 \<le> i \<and> i \<le> 8" by simp
  from terminal_lock [OF h1 h2 h3] h1 h2 show ?thesis by simp
qed

text \<open>
  C7. For every game state and every index in \<open>[0, 8]\<close> whose cell holds \<open>MarkX\<close> or
  \<open>MarkO\<close>, any number of clicks on that index leaves the state exactly as it was: no
  mark is placed and \<open>xIsNext\<close> does not switch. \<open>handleSquareClick\<close> has no error
  result: it returns the state.
\<close>

theorem occupied_ignored:
  assumes "0 \<le> i" and "i \<le> 8"
    and "aget (squares s) i = Some MarkX \<or> aget (squares s) i = Some MarkO"
  shows "foldl handleSquareClick s (replicate n i) = s"
proof (induction n)
  case 0
  show ?case by simp
next
  case (Suc n)
  from assms(3) have "truthy (aget (squares s) i)" by auto
  then have "handleSquareClick s i = s" by (simp add: handleSquareClick_ignored)
  with Suc show ?case by simp
qed

text \<open>Three more clicks on cell 0 after \<open>X0\<close>.\<close>

theorem occupied_ignored_witness:
  "(0::int) \<le> 0 \<and> (0::int) \<le> 8
   \<and> aget (squares (handleSquareClick initialState 0)) 0 = Some MarkX
   \<and> foldl handleSquareClick (handleSquareClick initialState 0) (replicate 3 0)
       = handleSquareClick initialState 0"
proof -
  have h1: "(0::int) \<le> 0" and h2: "(0::int) \<le> 8" by simp_all
  have x: "aget (squares (handleSquareClick initialState 0)) 0 = Some MarkX"
    by (simp add: handleSquareClick_def initialState_def fill_null_def
      calculateWinner_def LINES_def aget_def aset_def slice_def array_index_def numeral_eq_Suc)
  then have h3: "aget (squares (handleSquareClick initialState 0)) 0 = Some MarkX
      \<or> aget (squares (handleSquareClick initialState 0)) 0 = Some MarkO" by simp
  from occupied_ignored [OF h1 h2 h3, of 3] x show ?thesis by simp
qed


section \<open>Indices outside the board\<close>

text \<open>
  C3, as the code has it. \<open>handleSquareClick\<close> does not check the index and has no error
  result. On a nine-cell board, a click with an index outside \<open>[0, 8]\<close> is ignored, the
  state unchanged, when the board has a winner; otherwise the mark of the turn is stored
  under that index, outside the nine cells, which keep their values, and \<open>xIsNext\<close> flips.
\<close>

theorem handleSquareClick_out_of_range:
  assumes "board9 (squares s)" and "i < 0 \<or> 8 < i"
  shows "(truthy (winner (calculateWinner (squares s))) \<longrightarrow> handleSquareClick s i = s)
     \<and> (\<not> truthy (winner (calculateWinner (squares s))) \<longrightarrow>
          aget (squares (handleSquareClick s i)) i = Some (if xIsNext s then MarkX else MarkO)
        \<and> (\<forall>j. 0 \<le> j \<and> j \<le> 8 \<longrightarrow>
             aget (squares (handleSquareClick s i)) j = aget (squares s) j)
        \<and> xIsNext (handleSquareClick s i) = (\<not> xIsNext s))"
proof -
  from assms have "\<not> truthy (aget (squares s) i)" by (simp add: aget_outside)
  then have "\<not> truthy (winner (calculateWinner (squares s))) \<Longrightarrow>
      handleSquareClick s i =
        \<lparr>squares = aset (squares s) i (if xIsNext s then MarkX else MarkO),
         xIsNext = \<not> xIsNext s\<rparr>"
    using assms(1) by (simp add: handleSquareClick_def slice_board9)
  then show ?thesis
    using assms by (auto simp: handleSquareClick_ignored aget_aset_outside)
qed

text \<open>A click with index \<open>-1\<close> on the initial state: the mark is stored, the turn passes.\<close>

theorem handleSquareClick_out_of_range_witness:
  "board9 (squares initialState) \<and> ((-1::int) < 0 \<or> 8 < (-1::int))
   \<and> aget (squares (handleSquareClick initialState (-1))) (-1) = Some MarkX
   \<and> aget (squares (handleSquareClick initialState (-1))) 0 = Some Empty
   \<and> xIsNext (handleSquareClick initialState (-1)) = False"
proof -
  have h1: "board9 (squares initialState)" by (rule initialState_board9)
  have h2: "(-1::int) < 0 \<or> 8 < (-1::int)" by simp
  have x: "xIsNext initialState" by (simp add: initialState_def)
  have old: "aget (squares initialState) 0 = Some Empty"
    by (simp add: initialState_def fill_null_def aget_def)
  from handleSquareClick_out_of_range [OF h1 h2] initialState_no_winner h1 x old
  show ?thesis by simp
qed

text \<open>
  The claim as stated fails at index 9 on the initial state: the click is not rejected,
  the array grows to ten elements with \<open>MarkX\<close> at index 9, and \<open>xIsNext\<close> flips.
\<close>

theorem invalid_index_counterexample:
  "elems (squares (handleSquareClick initialState 9)) = replicate 9 (Some Empty) @ [Some MarkX]
   \<and> xIsNext (handleSquareClick initialState 9) = False
   \<and> handleSquareClick initialState 9 \<noteq> initialState"
  by (simp add: handleSquareClick_def initialState_def fill_null_def calculateWinner_def
      LINES_def aget_def aset_def slice_def array_index_def numeral_eq_Suc)


section \<open>Reachable states\<close>

text \<open>
  C10. In every state reachable from the initial state by clicks with indices in
  \<open>[0, 8]\<close> and resets, the number of \<open>MarkX\<close> cells minus the number of \<open>MarkO\<close> cells
  is 0 when \<open>xIsNext\<close> holds (\<open>MarkX\<close> to move) and 1 when it does not (\<open>MarkO\<close> to move).
\<close>

theorem reachable_mark_balance:
  assumes "reachable s"
  shows "int (count_list (elems (squares s)) (Some MarkX))
         - int (count_list (elems (squares s)) (Some MarkO)) = (if xIsNext s then 0 else 1)"
  using reachable_invariant [OF assms] by (simp add: balance_def)

text \<open>After the win \<open>X0 O4 X1 O3 X2\<close>: three \<open>MarkX\<close>, two \<open>MarkO\<close>, and \<open>xIsNext\<close> is false.\<close>

theorem reachable_mark_balance_witness:
  "reachable (foldl handleSquareClick initialState [0, 4, 1, 3, 2])
   \<and> xIsNext (foldl handleSquareClick initialState [0, 4, 1, 3, 2]) = False
   \<and> int (count_list (elems (squares (foldl handleSquareClick initialState [0, 4, 1, 3, 2])))
         (Some MarkX))
     - int (count_list (elems (squares (foldl handleSquareClick initialState [0, 4, 1, 3, 2])))
         (Some MarkO)) = 1"
proof -
  have h: "reachable (foldl handleSquareClick initialState [0, 4, 1, 3, 2])"
    by (simp del: foldl_Cons add: foldl.simps) (intro reachable.move reachable.init; simp)
  have x: "xIsNext (foldl handleSquareClick initialState [0, 4, 1, 3, 2]) = False"
    by (simp only: game_04132) simp
  from reachable_mark_balance [OF h] h x show ?thesis by simp
qed


section \<open>Reset\<close>

text \<open>
  C8. From every game state, \<open>resetGame\<close> yields exactly the initial state: nine cells,
  all \<open>Empty\<close>, \<open>MarkX\<close> to move, verdict \<open>Ongoing\<close>. It has no precondition and no way
  to fail.
\<close>

theorem resetGame_initial:
  "resetGame s = initialState
   \<and> board9 (squares (resetGame s))
   \<and> elems (squares (resetGame s)) = replicate 9 (Some Empty)
   \<and> xIsNext (resetGame s) = True
   \<and> evaluate (squares (resetGame s)) = Ongoing"
  by (simp add: resetGame_def initialState_def fill_null_def board9_def evaluate_def
      calculateWinner_def LINES_def aget_def isDraw_def every_def numeral_eq_Suc)

end
